theory Spec2Isabelle
  imports Main "HOL-Library.AList"
begin

section \<open>Real-time presence and room messaging (server/sockets/chatHandler.js)\<close>

text \<open>
  The module keeps two process-wide tables, \<open>activeUsers\<close> (user id to connection entry)
  and \<open>userRooms\<close> (user id to list of rooms), and installs one handler per inbound event
  on every socket. Each handler is embedded as a function from the state before the event
  to the state after it together with the list of deliveries the handler causes, a
  delivery being a pair of the receiving socket id and the event it is handed.

  Values the handlers take from their environment are arguments of the embedded handlers:
  the outcome of \<open>jwt.verify\<close> followed by \<open>User.findById\<close>, the value of \<open>new Date()\<close>,
  and the clock value and random number read by \<open>generateMessageId()\<close>. Console logging is
  left out.
\<close>

subsection \<open>Data\<close>

type_synonym sid = string
type_synonym room = string

text \<open>The document \<open>User.findById(...).select('name role isActive')\<close> resolves to.\<close>

record user_doc =
  doc_id :: string
  doc_name :: string
  doc_role :: string
  doc_isActive :: bool

text \<open>
  What the \<open>try\<close> block of the \<open>authenticate\<close> handler gets from its collaborators:
  \<open>jwt.verify\<close> or the lookup throws, the lookup resolves to \<open>null\<close>, or it resolves to
  a document.
\<close>

datatype auth_result = VerifyThrows | UserNull | UserFound user_doc

text \<open>The fields the handlers attach to a socket, and the library's \<open>rooms\<close> and \<open>connected\<close>.\<close>

record socket =
  userId :: "string option"
  userName :: "string option"
  userRole :: "string option"
  rooms :: "room list"
  connected :: bool

text \<open>A value of the \<open>activeUsers\<close> map.\<close>

record active_user =
  socketId :: sid
  name :: string
  role :: string
  joinedAt :: nat

text \<open>The \<open>{ id, name, role }\<close> triple built from the socket's fields in outgoing payloads.\<close>

record identity =
  ident_id :: "string option"
  ident_name :: "string option"
  ident_role :: "string option"

record messageData =
  m_id :: string
  m_user :: identity
  m_message :: string
  m_timestamp :: nat
  m_groupId :: string

record recipient_info =
  to_id :: string
  to_name :: string
  to_role :: string

record privateMessageData =
  p_id :: string
  p_from :: identity
  p_to :: recipient_info
  p_message :: string
  p_timestamp :: nat
  p_isPrivate :: bool

datatype out_event =
    AuthError string
  | Authenticated string string string string
  | Error string
  | UserJoined identity
  | RoomInfo room "active_user list"
  | Message messageData
  | TypingEv "string option" "string option" bool
  | PrivateMessageEv privateMessageData
  | MessageDelivered string string
  | TherapyUserJoined identity
  | VideoCallSignalEv "string option" string string
  | UserLeft identity
  | Notification string

type_synonym delivery = "sid \<times> out_event"

text \<open>
  The server state: every socket object created so far (\<open>ids\<close> lists their ids in order
  of connection), the \<open>activeUsers\<close> map as an association list in insertion order (the
  \<open>joinGroup\<close> handler iterates its values), and the \<open>userRooms\<close> map, which is only
  ever looked up by key.
\<close>

record state =
  sockets :: "sid \<rightharpoonup> socket"
  ids :: "sid list"
  activeUsers :: "(string \<times> active_user) list"
  userRooms :: "string \<rightharpoonup> room list"

definition init :: state where
  "init = \<lparr>sockets = Map.empty, ids = [], activeUsers = [], userRooms = Map.empty\<rparr>"

subsection \<open>JavaScript values\<close>

text \<open>
  \<open>!x\<close> for a value that is \<open>undefined\<close> or a string: \<open>undefined\<close> and the empty string
  are falsy.
\<close>

definition truthy :: "string option \<Rightarrow> bool" where
  "truthy x = (case x of None \<Rightarrow> False | Some v \<Rightarrow> v \<noteq> [])"

text \<open>
  \<open>String.prototype.trim\<close>. Characters are read as code units below 256; the white space
  among them is tab, line feed, vertical tab, form feed, carriage return, space and the
  no-break space.
\<close>

definition is_space :: "char \<Rightarrow> bool" where
  "is_space ch = (of_char ch \<in> {9, 10, 11, 12, 13, 32, 160 :: nat})"

definition trim :: "string \<Rightarrow> string" where
  "trim m = rev (dropWhile is_space (rev (dropWhile is_space m)))"

text \<open>
  \<open>generateMessageId()\<close> returns \<open>Date.now().toString(36) + Math.random().toString(36).substr(2)\<close>.
  Its two readings of the environment are arguments: the clock value \<open>t\<close> and the string
  \<open>rnd\<close> that \<open>Math.random().toString(36)\<close> evaluates to.
\<close>

definition digit36 :: "nat \<Rightarrow> char" where
  "digit36 d = ''0123456789abcdefghijklmnopqrstuvwxyz'' ! d"

fun to_base36 :: "nat \<Rightarrow> string" where
  "to_base36 n = (if n < 36 then [digit36 n] else to_base36 (n div 36) @ [digit36 (n mod 36)])"

declare to_base36.simps [simp del]

definition generateMessageId :: "nat \<Rightarrow> string \<Rightarrow> string" where
  "generateMessageId t rnd = to_base36 t @ drop 2 rnd"

definition ident_of :: "socket \<Rightarrow> identity" where
  "ident_of k = \<lparr>ident_id = userId k, ident_name = userName k, ident_role = userRole k\<rparr>"

subsection \<open>Socket.IO primitives\<close>

text \<open>
  The handlers call into Socket.IO; these definitions follow the library's documented
  behaviour. A socket belongs to the room named by its own id from connection on.
  \<open>socket.emit\<close> hands the event to that socket only, \<open>io.to(r).emit\<close> to every connected
  socket in room \<open>r\<close>, and \<open>socket.to(r).emit\<close> to every connected socket in room \<open>r\<close>
  other than \<open>socket\<close>. An emit to a socket that is no longer connected is dropped.
\<close>

definition in_room :: "state \<Rightarrow> room \<Rightarrow> sid \<Rightarrow> bool" where
  "in_room s r c = (case sockets s c of None \<Rightarrow> False | Some k \<Rightarrow> connected k \<and> r \<in> set (rooms k))"

definition is_connected :: "state \<Rightarrow> sid \<Rightarrow> bool" where
  "is_connected s c = (case sockets s c of None \<Rightarrow> False | Some k \<Rightarrow> connected k)"

definition members :: "state \<Rightarrow> room \<Rightarrow> sid list" where
  "members s r = filter (in_room s r) (ids s)"

definition socket_emit :: "state \<Rightarrow> sid \<Rightarrow> out_event \<Rightarrow> delivery list" where
  "socket_emit s c ev = (if is_connected s c then [(c, ev)] else [])"

definition io_to_emit :: "state \<Rightarrow> room \<Rightarrow> out_event \<Rightarrow> delivery list" where
  "io_to_emit s r ev = map (\<lambda>d. (d, ev)) (members s r)"

definition socket_to_emit :: "state \<Rightarrow> sid \<Rightarrow> room \<Rightarrow> out_event \<Rightarrow> delivery list" where
  "socket_to_emit s c r ev = map (\<lambda>d. (d, ev)) (filter (\<lambda>d. d \<noteq> c) (members s r))"

definition upd_socket :: "sid \<Rightarrow> (socket \<Rightarrow> socket) \<Rightarrow> state \<Rightarrow> state" where
  "upd_socket c f s =
     (case sockets s c of None \<Rightarrow> s | Some k \<Rightarrow> s\<lparr>sockets := (sockets s)(c \<mapsto> f k)\<rparr>)"

text \<open>\<open>socket.join(r)\<close> adds \<open>r\<close> to the set \<open>socket.rooms\<close>; \<open>socket.leave(r)\<close> removes it.\<close>

definition socket_join :: "sid \<Rightarrow> room \<Rightarrow> state \<Rightarrow> state" where
  "socket_join c r =
     upd_socket c (\<lambda>k. k\<lparr>rooms := (if r \<in> set (rooms k) then rooms k else rooms k @ [r])\<rparr>)"

definition socket_leave :: "sid \<Rightarrow> room \<Rightarrow> state \<Rightarrow> state" where
  "socket_leave c r = upd_socket c (\<lambda>k. k\<lparr>rooms := removeAll r (rooms k)\<rparr>)"

subsection \<open>The handlers\<close>

text \<open>
  \<open>socket.on('disconnect', ...)\<close>: for a socket with a truthy \<open>userId\<close>, delete the user
  from both tables, then emit \<open>userLeft\<close> to every room in \<open>socket.rooms\<close> other than
  the socket's own.
\<close>

definition on_disconnect :: "sid \<Rightarrow> state \<Rightarrow> state \<times> delivery list" where
  "on_disconnect c s =
     (case sockets s c of
        None \<Rightarrow> (s, [])
      | Some k \<Rightarrow>
          (case userId k of
             None \<Rightarrow> (s, [])
           | Some u \<Rightarrow>
               if u = [] then (s, [])
               else
                 (let s1 = s\<lparr>activeUsers := AList.delete u (activeUsers s),
                             userRooms := (userRooms s)(u := None)\<rparr>
                  in (s1, concat (map (\<lambda>r. if r \<noteq> c
                                              then socket_to_emit s1 c r (UserLeft (ident_of k))
                                              else [])
                                      (rooms k))))))"

text \<open>
  How Socket.IO closes a socket, whether the client went away or the server called
  \<open>socket.disconnect()\<close>: nothing happens to a socket already closed; otherwise the socket
  leaves all its rooms and is marked disconnected, and only then are the \<open>disconnect\<close>
  listeners run. (The library runs the \<open>disconnecting\<close> listeners before the rooms are
  left; this module registers none.)
\<close>

definition socket_onclose :: "sid \<Rightarrow> state \<Rightarrow> state \<times> delivery list" where
  "socket_onclose c s =
     (if is_connected s c
      then on_disconnect c (upd_socket c (\<lambda>k. k\<lparr>rooms := [], connected := False\<rparr>) s)
      else (s, []))"

text \<open>
  \<open>handleSocketConnection\<close>: a new socket, in its own room, with no user fields yet.
  Socket ids are unique; a second connection under a known id is ignored.
\<close>

definition on_connect :: "sid \<Rightarrow> state \<Rightarrow> state \<times> delivery list" where
  "on_connect c s =
     (if c \<in> set (ids s) \<or> sockets s c \<noteq> None then (s, [])
      else (s\<lparr>sockets := (sockets s)(c \<mapsto> \<lparr>userId = None, userName = None, userRole = None,
                                             rooms = [c], connected = True\<rparr>),
              ids := ids s @ [c]\<rparr>, []))"

text \<open>
  \<open>socket.on('authenticate', ...)\<close>. Nothing is read or written before the handler's
  single \<open>await\<close>, so the handler is one step taken when the lookup settles, with the
  settled outcome \<open>res\<close> and the clock value \<open>now\<close>.
\<close>

definition auth_fail :: "sid \<Rightarrow> string \<Rightarrow> state \<Rightarrow> state \<times> delivery list" where
  "auth_fail c reason s =
     (let out1 = socket_emit s c (AuthError reason);
          (s', out2) = socket_onclose c s
      in (s', out1 @ out2))"

definition on_authenticate :: "sid \<Rightarrow> auth_result \<Rightarrow> nat \<Rightarrow> state \<Rightarrow> state \<times> delivery list" where
  "on_authenticate c res now s =
     (case res of
        VerifyThrows \<Rightarrow> auth_fail c ''Authentication failed'' s
      | UserNull \<Rightarrow> auth_fail c ''Invalid user'' s
      | UserFound u \<Rightarrow>
          if \<not> doc_isActive u then auth_fail c ''Invalid user'' s
          else
            (let s1 = upd_socket c (\<lambda>k. k\<lparr>userId := Some (doc_id u),
                                            userRole := Some (doc_role u),
                                            userName := Some (doc_name u)\<rparr>) s;
                 s2 = s1\<lparr>activeUsers :=
                           AList.update (doc_id u)
                             \<lparr>socketId = c, name = doc_name u, role = doc_role u, joinedAt = now\<rparr>
                             (activeUsers s1)\<rparr>
             in (s2, socket_emit s2 c
                       (Authenticated ''Authentication successful''
                          (doc_id u) (doc_name u) (doc_role u)))))"

text \<open>
  \<open>socket.on('joinGroup', ...)\<close>. \<open>previousRooms\<close> is \<open>userRooms.get(socket.userId) || []\<close>,
  and \<open>roomUsers\<close> the entries of \<open>activeUsers\<close> whose socket is connected and in the room.
\<close>

definition roomUsers :: "state \<Rightarrow> room \<Rightarrow> active_user list" where
  "roomUsers s groupId = filter (\<lambda>user. in_room s groupId (socketId user)) (map snd (activeUsers s))"

definition previousRooms :: "state \<Rightarrow> string \<Rightarrow> room list" where
  "previousRooms s u = (case userRooms s u of None \<Rightarrow> [] | Some rs \<Rightarrow> rs)"

definition on_joinGroup :: "sid \<Rightarrow> room \<Rightarrow> state \<Rightarrow> state \<times> delivery list" where
  "on_joinGroup c groupId s =
     (case sockets s c of
        None \<Rightarrow> (s, [])
      | Some k \<Rightarrow>
          (case userId k of
             None \<Rightarrow> (s, socket_emit s c (Error ''Authentication required''))
           | Some u \<Rightarrow>
               if u = [] then (s, socket_emit s c (Error ''Authentication required''))
               else
                 (let s1 = fold (socket_leave c) (previousRooms s u) s;
                      s2 = socket_join c groupId s1;
                      s3 = s2\<lparr>userRooms := (userRooms s2)(u \<mapsto> [groupId])\<rparr>
                  in (s3, socket_to_emit s3 c groupId (UserJoined (ident_of k))
                          @ socket_emit s3 c (RoomInfo groupId (roomUsers s3 groupId))))))"

text \<open>
  \<open>socket.on('sendMessage', ...)\<close>. The fields \<open>groupId\<close> and \<open>message\<close> of the payload
  are strings or missing.
\<close>

definition on_sendMessage ::
  "sid \<Rightarrow> string option \<Rightarrow> string option \<Rightarrow> string \<Rightarrow> nat \<Rightarrow> state \<Rightarrow> state \<times> delivery list" where
  "on_sendMessage c groupId message mid now s =
     (case sockets s c of
        None \<Rightarrow> (s, [])
      | Some k \<Rightarrow>
          if \<not> truthy (userId k) then (s, socket_emit s c (Error ''Authentication required''))
          else
            (case (groupId, message) of
               (Some g, Some m) \<Rightarrow>
                 if g = [] \<or> m = [] \<or> trim m = []
                 then (s, socket_emit s c (Error ''Invalid message data''))
                 else (s, io_to_emit s g
                            (Message \<lparr>m_id = mid, m_user = ident_of k, m_message = trim m,
                                      m_timestamp = now, m_groupId = g\<rparr>))
             | _ \<Rightarrow> (s, socket_emit s c (Error ''Invalid message data''))))"

text \<open>\<open>socket.on('typing', ...)\<close>.\<close>

definition on_typing :: "sid \<Rightarrow> room \<Rightarrow> bool \<Rightarrow> state \<Rightarrow> state \<times> delivery list" where
  "on_typing c groupId isTyping s =
     (case sockets s c of
        None \<Rightarrow> (s, [])
      | Some k \<Rightarrow>
          if \<not> truthy (userId k) then (s, [])
          else (s, socket_to_emit s c groupId (TypingEv (userId k) (userName k) isTyping)))"

text \<open>\<open>socket.on('privateMessage', ...)\<close>.\<close>

definition on_privateMessage ::
  "sid \<Rightarrow> string option \<Rightarrow> string option \<Rightarrow> string \<Rightarrow> nat \<Rightarrow> state \<Rightarrow> state \<times> delivery list" where
  "on_privateMessage c recipientId message mid now s =
     (case sockets s c of
        None \<Rightarrow> (s, [])
      | Some k \<Rightarrow>
          if \<not> truthy (userId k) then (s, socket_emit s c (Error ''Authentication required''))
          else
            (case (recipientId, message) of
               (Some rid, Some m) \<Rightarrow>
                 if rid = [] \<or> m = [] \<or> trim m = []
                 then (s, socket_emit s c (Error ''Invalid message data''))
                 else
                   (case map_of (activeUsers s) rid of
                      None \<Rightarrow> (s, socket_emit s c (Error ''Recipient not found or offline''))
                    | Some recipient \<Rightarrow>
                        (s, io_to_emit s (socketId recipient)
                              (PrivateMessageEv
                                 \<lparr>p_id = mid, p_from = ident_of k,
                                  p_to = \<lparr>to_id = rid, to_name = name recipient,
                                          to_role = role recipient\<rparr>,
                                  p_message = trim m, p_timestamp = now, p_isPrivate = True\<rparr>)
                            @ socket_emit s c (MessageDelivered mid rid)))
             | _ \<Rightarrow> (s, socket_emit s c (Error ''Invalid message data''))))"

text \<open>\<open>socket.on('joinTherapySession', ...)\<close>.\<close>

definition therapyRoom :: "string \<Rightarrow> room" where
  "therapyRoom sessionId = ''therapy_'' @ sessionId"

definition on_joinTherapySession :: "sid \<Rightarrow> string \<Rightarrow> state \<Rightarrow> state \<times> delivery list" where
  "on_joinTherapySession c sessionId s =
     (case sockets s c of
        None \<Rightarrow> (s, [])
      | Some k \<Rightarrow>
          if \<not> truthy (userId k) then (s, socket_emit s c (Error ''Authentication required''))
          else
            (let s1 = socket_join c (therapyRoom sessionId) s
             in (s1, socket_to_emit s1 c (therapyRoom sessionId) (TherapyUserJoined (ident_of k)))))"

text \<open>\<open>socket.on('videoCallSignal', ...)\<close>.\<close>

definition on_videoCallSignal ::
  "sid \<Rightarrow> string \<Rightarrow> string \<Rightarrow> string \<Rightarrow> state \<Rightarrow> state \<times> delivery list" where
  "on_videoCallSignal c sessionId signal type s =
     (case sockets s c of
        None \<Rightarrow> (s, [])
      | Some k \<Rightarrow>
          if \<not> truthy (userId k) then (s, [])
          else (s, socket_to_emit s c (therapyRoom sessionId)
                     (VideoCallSignalEv (userId k) signal type)))"

text \<open>\<open>sendNotificationToUser(io, userId, notification)\<close>: the deliveries and the result.\<close>

definition sendNotificationToUser :: "state \<Rightarrow> string \<Rightarrow> string \<Rightarrow> delivery list \<times> bool" where
  "sendNotificationToUser s uid notification =
     (case map_of (activeUsers s) uid of
        Some user \<Rightarrow> (io_to_emit s (socketId user) (Notification notification), True)
      | None \<Rightarrow> ([], False))"

subsection \<open>Runs\<close>

text \<open>
  The inbound events; \<open>sendMessage\<close> and \<open>privateMessage\<close> carry the readings of their
  call of \<open>generateMessageId()\<close> and of \<open>new Date()\<close>. Socket.IO dispatches a client event
  only to a connected socket;
  the \<open>authenticate\<close> handler is the exception, since its continuation after the
  \<open>await\<close> may run when the socket has closed in the meantime.
\<close>

datatype event =
    Connect sid
  | Authenticate sid auth_result nat
  | JoinGroup sid room
  | SendMessage sid "string option" "string option" nat string nat
  | Typing sid room bool
  | PrivateMessage sid "string option" "string option" nat string nat
  | JoinTherapySession sid string
  | VideoCallSignal sid string string string
  | Disconnect sid

fun step :: "event \<Rightarrow> state \<Rightarrow> state \<times> delivery list" where
  "step (Connect c) s = on_connect c s"
| "step (Authenticate c res now) s =
     (if sockets s c \<noteq> None then on_authenticate c res now s else (s, []))"
| "step (JoinGroup c g) s = (if is_connected s c then on_joinGroup c g s else (s, []))"
| "step (SendMessage c g m t rnd now) s =
     (if is_connected s c then on_sendMessage c g m (generateMessageId t rnd) now s else (s, []))"
| "step (Typing c g b) s = (if is_connected s c then on_typing c g b s else (s, []))"
| "step (PrivateMessage c r m t rnd now) s =
     (if is_connected s c then on_privateMessage c r m (generateMessageId t rnd) now s else (s, []))"
| "step (JoinTherapySession c x) s =
     (if is_connected s c then on_joinTherapySession c x s else (s, []))"
| "step (VideoCallSignal c x sg ty) s =
     (if is_connected s c then on_videoCallSignal c x sg ty s else (s, []))"
| "step (Disconnect c) s = socket_onclose c s"

fun run :: "event list \<Rightarrow> state \<Rightarrow> state" where
  "run [] s = s"
| "run (e # es) s = run es (fst (step e s))"

fun run_out :: "event list \<Rightarrow> state \<Rightarrow> delivery list" where
  "run_out [] s = []"
| "run_out (e # es) s = snd (step e s) @ run_out es (fst (step e s))"

subsection \<open>Auxiliary notions for the properties\<close>

text \<open>The body test of the message handlers: present, and non-empty after trimming.\<close>

definition valid_body :: "string option \<Rightarrow> bool" where
  "valid_body message = (case message of None \<Rightarrow> False | Some m \<Rightarrow> m \<noteq> [] \<and> trim m \<noteq> [])"

text \<open>
  A run used in the examples: A (a patient) and B (a caregiver) connect, authenticate and
  join the room \<open>grief-support\<close>; a third connection stays unauthenticated.
\<close>

definition userA :: user_doc where
  "userA = \<lparr>doc_id = ''u1'', doc_name = ''A'', doc_role = ''patient'', doc_isActive = True\<rparr>"

definition userB :: user_doc where
  "userB = \<lparr>doc_id = ''u2'', doc_name = ''B'', doc_role = ''caregiver'', doc_isActive = True\<rparr>"

definition scenario :: "event list" where
  "scenario =
     [Connect ''a'', Authenticate ''a'' (UserFound userA) 0, JoinGroup ''a'' ''grief-support'',
      Connect ''b'', Authenticate ''b'' (UserFound userB) 1, JoinGroup ''b'' ''grief-support'',
      Connect ''n'']"

definition sock_a :: socket where
  "sock_a = \<lparr>userId = Some ''u1'', userName = Some ''A'', userRole = Some ''patient'',
             rooms = [''a'', ''grief-support''], connected = True\<rparr>"

definition sock_b :: socket where
  "sock_b = \<lparr>userId = Some ''u2'', userName = Some ''B'', userRole = Some ''caregiver'',
             rooms = [''b'', ''grief-support''], connected = True\<rparr>"

definition sock_n :: socket where
  "sock_n = \<lparr>userId = None, userName = None, userRole = None, rooms = [''n''], connected = True\<rparr>"

definition demo :: state where
  "demo = \<lparr>sockets = [''a'' \<mapsto> sock_a, ''b'' \<mapsto> sock_b, ''n'' \<mapsto> sock_n],
           ids = [''a'', ''b'', ''n''],
           activeUsers =
             [(''u1'', \<lparr>socketId = ''a'', name = ''A'', role = ''patient'', joinedAt = 0\<rparr>),
              (''u2'', \<lparr>socketId = ''b'', name = ''B'', role = ''caregiver'', joinedAt = 1\<rparr>)],
           userRooms = [''u1'' \<mapsto> [''grief-support''], ''u2'' \<mapsto> [''grief-support'']]\<rparr>"


text \<open>A second run: the same user authenticates on two connections.\<close>

definition relogin :: "event list" where
  "relogin = [Connect ''a'', Authenticate ''a'' (UserFound userA) 0,
              Connect ''a2'', Authenticate ''a2'' (UserFound userA) 1]"

definition duplicate_login :: "event list" where
  "duplicate_login = relogin @ [Disconnect ''a2'', JoinGroup ''a'' ''grief-support'']"

text \<open>The outcomes on which the \<open>authenticate\<close> handler disconnects the socket.\<close>

definition auth_rejected :: "auth_result \<Rightarrow> bool" where
  "auth_rejected res = (case res of UserFound d \<Rightarrow> \<not> doc_isActive d | _ \<Rightarrow> True)"

text \<open>
  The user id a connected socket currently carries, and runs in which no successful
  authentication gives a socket a user id that another connected socket carries at that
  moment.
\<close>

definition who :: "state \<Rightarrow> sid \<Rightarrow> string option" where
  "who s c = (case sockets s c of None \<Rightarrow> None | Some k \<Rightarrow> if connected k then userId k else None)"

definition logged_in_elsewhere :: "state \<Rightarrow> sid \<Rightarrow> string \<Rightarrow> bool" where
  "logged_in_elsewhere s c u = (\<exists>d \<in> set (ids s). d \<noteq> c \<and> who s d = Some u)"

fun admissible :: "event \<Rightarrow> state \<Rightarrow> bool" where
  "admissible (Authenticate c (UserFound d) now) s =
     (doc_isActive d \<longrightarrow> \<not> logged_in_elsewhere s c (doc_id d))"
| "admissible _ s = True"

fun single_login :: "event list \<Rightarrow> state \<Rightarrow> bool" where
  "single_login [] s = True"
| "single_login (e # es) s = (admissible e s \<and> single_login es (fst (step e s)))"

text \<open>The invariant behind the single-login runs.\<close>

definition registered :: "state \<Rightarrow> string \<Rightarrow> bool" where
  "registered s u = (map_of (activeUsers s) u \<noteq> None)"

definition consistent :: "state \<Rightarrow> bool" where
  "consistent s \<longleftrightarrow>
     dom (sockets s) \<subseteq> set (ids s)
   \<and> (\<forall>u. userRooms s u \<noteq> None \<longrightarrow> registered s u)
   \<and> (\<forall>c u. who s c = Some u \<and> u \<noteq> [] \<longrightarrow> registered s u)
   \<and> (\<forall>c c' u. who s c = Some u \<and> who s c' = Some u \<longrightarrow> c = c')"

text \<open>
  Runs that leave the join-room bookkeeping of one connection \<open>c\<close>, carrying user id \<open>u\<close>,
  undisturbed: \<open>c\<close> itself is not authenticated again, not closed and joins no therapy
  session, and no other socket that carries \<open>u\<close> at that moment calls \<open>joinGroup\<close> or is
  closed (by a \<open>disconnect\<close> or a rejected authentication). \<open>joined\<close> lists the rooms \<open>c\<close>
  asks for, in order.
\<close>

fun allowed :: "sid \<Rightarrow> string \<Rightarrow> state \<Rightarrow> event \<Rightarrow> bool" where
  "allowed c u s (Connect d) = True"
| "allowed c u s (Authenticate d res now) = (d \<noteq> c \<and> (auth_rejected res \<longrightarrow> who s d \<noteq> Some u))"
| "allowed c u s (JoinGroup d g) = (d = c \<or> who s d \<noteq> Some u)"
| "allowed c u s (SendMessage d g m t rnd now) = True"
| "allowed c u s (Typing d g b) = True"
| "allowed c u s (PrivateMessage d r m t rnd now) = True"
| "allowed c u s (JoinTherapySession d x) = (d \<noteq> c)"
| "allowed c u s (VideoCallSignal d x sg ty) = True"
| "allowed c u s (Disconnect d) = (d \<noteq> c \<and> who s d \<noteq> Some u)"

fun undisturbed :: "sid \<Rightarrow> string \<Rightarrow> event list \<Rightarrow> state \<Rightarrow> bool" where
  "undisturbed c u [] s = True"
| "undisturbed c u (e # es) s = (allowed c u s e \<and> undisturbed c u es (fst (step e s)))"

fun joined :: "sid \<Rightarrow> event list \<Rightarrow> room list" where
  "joined c [] = []"
| "joined c (JoinGroup d g # es) = (if d = c then g # joined c es else joined c es)"
| "joined c (e # es) = joined c es"

text \<open>
  Runs for the examples: the second connection of the same user joins a room between two
  joins of the first; A goes through four rooms while B joins, talks and leaves; A leaves
  the room of its own socket id; B joins the room named by A's socket id.
\<close>

definition two_conns :: "event list" where
  "two_conns = relogin @ [JoinGroup ''a'' ''r1'', JoinGroup ''a2'' ''r2'', JoinGroup ''a'' ''r3'']"

definition busy_room :: "event list" where
  "busy_room =
     [JoinGroup ''a'' ''r1'', JoinGroup ''b'' ''r1'',
      SendMessage ''b'' (Some ''r1'') (Some ''hi'') 71 ''0.k3x'' 3,
      JoinGroup ''a'' ''r2'', Disconnect ''b'', JoinGroup ''a'' ''r1'', Typing ''a'' ''r1'' True,
      JoinGroup ''a'' ''r3'']"

definition own_room_left :: "event list" where
  "own_room_left =
     [Connect ''a'', Authenticate ''a'' (UserFound userA) 0,
      JoinGroup ''a'' ''a'', JoinGroup ''a'' ''grief-support'']"

definition eavesdrop :: "event list" where
  "eavesdrop = scenario @ [JoinGroup ''b'' ''a'']"

section \<open>Properties\<close>

subsection \<open>Basic facts\<close>

lemmas handler_defs =
  on_connect_def on_authenticate_def auth_fail_def on_joinGroup_def on_joinTherapySession_def
  socket_onclose_def on_disconnect_def upd_socket_def socket_join_def socket_leave_def
  socket_emit_def socket_to_emit_def io_to_emit_def members_def in_room_def is_connected_def
  roomUsers_def ident_of_def truthy_def therapyRoom_def previousRooms_def

lemmas demo_defs = demo_def sock_a_def sock_b_def sock_n_def

lemma demo_reachable: "run scenario init = demo"
  by (simp add: scenario_def init_def userA_def userB_def demo_defs handler_defs Let_def fun_upd_twist)

lemma mem_members: "d \<in> set (members s r) \<longleftrightarrow> d \<in> set (ids s) \<and> in_room s r d"
  by (simp add: members_def)

lemma distinct_members: "distinct (ids s) \<Longrightarrow> distinct (members s r)"
  by (simp add: members_def)

lemma count_map_pair:
  "distinct xs \<Longrightarrow>
   length (filter (\<lambda>x. fst x = d) (map (\<lambda>d. (d, ev)) xs)) = (if d \<in> set xs then 1 else 0)"
  by (induction xs) (auto simp: filter_map comp_def)

lemma generateMessageId_example: "generateMessageId 71 ''0.k3x'' = ''1zk3x''"
  by (simp add: generateMessageId_def digit36_def to_base36.simps)

lemma trim_nonempty: "trim m \<noteq> [] \<Longrightarrow> m \<noteq> []"
  by (auto simp: trim_def)

lemma sendMessage_valid:
  assumes "sockets s c = Some k" and "connected k" and "truthy (userId k)"
    and "g \<noteq> []" and "trim m \<noteq> []"
  shows "step (SendMessage c (Some g) (Some m) t rnd now) s =
           (s, io_to_emit s g (Message \<lparr>m_id = generateMessageId t rnd, m_user = ident_of k,
                                         m_message = trim m,
                                         m_timestamp = now, m_groupId = g\<rparr>))"
  using assms trim_nonempty [of m] by (simp add: is_connected_def on_sendMessage_def)

lemma count_io_to_emit:
  "distinct (ids s) \<Longrightarrow>
   length (filter (\<lambda>x. fst x = d) (io_to_emit s r ev)) =
     (if d \<in> set (ids s) \<and> in_room s r d then 1 else 0)"
  unfolding io_to_emit_def
  by (subst count_map_pair) (simp_all add: distinct_members mem_members)


subsection \<open>Guards and message routing\<close>

text \<open>
  C8. A connection that has not completed a successful authentication (its \<open>userId\<close> was
  never assigned) changes nothing: \<open>joinGroup\<close>, \<open>sendMessage\<close>, \<open>privateMessage\<close> and
  \<open>joinTherapySession\<close> leave the state as it is and hand one \<open>error\<close> event to that
  connection only; \<open>typing\<close> and \<open>videoCallSignal\<close> leave the state as it is and deliver
  nothing.
\<close>

theorem unauthenticated_events_rejected:
  assumes "sockets s c = Some k" and "connected k" and "userId k = None"
  shows "step (JoinGroup c g) s = (s, [(c, Error ''Authentication required'')])
       \<and> step (SendMessage c gid msg t rnd now) s = (s, [(c, Error ''Authentication required'')])
       \<and> step (PrivateMessage c rid msg t rnd now) s = (s, [(c, Error ''Authentication required'')])
       \<and> step (JoinTherapySession c x) s = (s, [(c, Error ''Authentication required'')])
       \<and> step (Typing c g b) s = (s, [])
       \<and> step (VideoCallSignal c x sg ty) s = (s, [])"
  using assms
  by (simp add: is_connected_def on_joinGroup_def on_sendMessage_def on_privateMessage_def
      on_joinTherapySession_def on_typing_def on_videoCallSignal_def truthy_def socket_emit_def)

theorem unauthenticated_events_rejected_witness:
  "sockets demo ''n'' = Some sock_n \<and> connected sock_n \<and> userId sock_n = None
 \<and> step (JoinGroup ''n'' ''grief-support'') demo = (demo, [(''n'', Error ''Authentication required'')])
 \<and> step (SendMessage ''n'' (Some ''grief-support'') (Some ''hello'') 71 ''0.k3x'' 7) demo
      = (demo, [(''n'', Error ''Authentication required'')])
 \<and> step (PrivateMessage ''n'' (Some ''u1'') (Some ''hello'') 71 ''0.k3x'' 7) demo
      = (demo, [(''n'', Error ''Authentication required'')])
 \<and> step (Typing ''n'' ''grief-support'' True) demo = (demo, [])
 \<and> step (VideoCallSignal ''n'' ''s1'' ''offer'' ''sdp'') demo = (demo, [])"
proof -
  have h: "sockets demo ''n'' = Some sock_n" "connected sock_n" "userId sock_n = None"
    by (simp_all add: demo_defs)
  from unauthenticated_events_rejected [OF h] h show ?thesis by blast
qed

text \<open>
  C7. An authenticated connection sends a private message to a recipient id that has no
  entry in \<open>activeUsers\<close>: the sender is handed exactly one \<open>error\<close> event, nothing is
  delivered to any other connection, and the state is left as it was, so that every later
  run delivers what it would have delivered without the message (nothing is queued).
\<close>

theorem privateMessage_recipient_offline:
  assumes "sockets s c = Some k" and "connected k" and "truthy (userId k)"
    and "map_of (activeUsers s) rid = None"
  shows "step (PrivateMessage c (Some rid) msg t rnd now) s =
           (s, [(c, Error (if rid \<noteq> [] \<and> valid_body msg then ''Recipient not found or offline''
                           else ''Invalid message data''))])
       \<and> (\<forall>evs. run_out evs (fst (step (PrivateMessage c (Some rid) msg t rnd now) s))
                = run_out evs s)"
  using assms
  by (auto simp add: is_connected_def on_privateMessage_def valid_body_def socket_emit_def
      split: option.splits)

theorem privateMessage_recipient_offline_witness:
  "sockets demo ''a'' = Some sock_a \<and> connected sock_a \<and> truthy (userId sock_a)
 \<and> map_of (activeUsers demo) ''u3'' = None
 \<and> step (PrivateMessage ''a'' (Some ''u3'') (Some ''hello'') 71 ''0.k3x'' 7) demo
      = (demo, [(''a'', Error ''Recipient not found or offline'')])"
proof -
  have h: "sockets demo ''a'' = Some sock_a" "connected sock_a" "truthy (userId sock_a)"
    "map_of (activeUsers demo) ''u3'' = None"
    by (simp_all add: demo_defs truthy_def)
  have v: "valid_body (Some ''hello'')"
    by (simp add: valid_body_def trim_def is_space_def)
  from privateMessage_recipient_offline [OF h, of "Some ''hello''" 71 "''0.k3x''" 7] h v
  show ?thesis by simp
qed



text \<open>
  C9. \<open>sendMessage\<close> does not look at the sender's own membership: when the sender is
  not in the (present) target room, the message still goes to the room's members, and the
  sender gets no copy.
\<close>

theorem sendMessage_no_membership_check:
  assumes "sockets s c = Some k" and "connected k" and "truthy (userId k)"
    and "g \<noteq> []" and "trim m \<noteq> []" and "\<not> in_room s g c"
  shows "step (SendMessage c (Some g) (Some m) t rnd now) s =
           (s, map (\<lambda>d. (d, Message \<lparr>m_id = generateMessageId t rnd, m_user = ident_of k,
                                         m_message = trim m,
                                         m_timestamp = now, m_groupId = g\<rparr>)) (members s g))
       \<and> c \<notin> fst ` set (snd (step (SendMessage c (Some g) (Some m) t rnd now) s))"
  using assms(6)
  by (auto simp add: sendMessage_valid [OF assms(1-5)] io_to_emit_def mem_members
      simp del: step.simps)

theorem sendMessage_no_membership_check_witness:
  "sockets demo ''a'' = Some sock_a \<and> connected sock_a \<and> truthy (userId sock_a)
 \<and> ''b'' \<noteq> [] \<and> trim ''psst'' \<noteq> [] \<and> \<not> in_room demo ''b'' ''a''
 \<and> step (SendMessage ''a'' (Some ''b'') (Some ''psst'') 71 ''0.k3x'' 8) demo =
     (demo, [(''b'', Message \<lparr>m_id = ''1zk3x'', m_user = ident_of sock_a, m_message = ''psst'',
                                m_timestamp = 8, m_groupId = ''b''\<rparr>)])
 \<and> ''a'' \<notin> fst ` set (snd (step (SendMessage ''a'' (Some ''b'') (Some ''psst'') 71 ''0.k3x'' 8) demo))"
proof -
  have t: "trim ''psst'' = ''psst''"
    by (simp add: trim_def is_space_def)
  have h: "sockets demo ''a'' = Some sock_a" "connected sock_a" "truthy (userId sock_a)"
    "''b'' \<noteq> []" "trim ''psst'' \<noteq> []" "\<not> in_room demo ''b'' ''a''"
    by (simp_all add: demo_defs truthy_def t in_room_def)
  have m: "members demo ''b'' = [''b'']"
    by (simp add: members_def in_room_def demo_defs)
  from sendMessage_no_membership_check [OF h, of 71 "''0.k3x''" 8] h
  show ?thesis by (simp add: m t generateMessageId_example del: step.simps)
qed

text \<open>
  C10 as stated fails. The event goes to the room named by the registered socket id, and
  who is in that room is not fixed: a connection leaves the room of its own id when it
  calls \<open>joinGroup\<close> with that id and then with another room, after which the function
  returns true and nobody receives the event; and any connection that joins the room named
  by A's socket id receives A's notification as well.
\<close>

theorem sendNotificationToUser_counterexample:
  "map_of (activeUsers (run own_room_left init)) ''u1''
     = Some \<lparr>socketId = ''a'', name = ''A'', role = ''patient'', joinedAt = 0\<rparr>
 \<and> is_connected (run own_room_left init) ''a''
 \<and> sendNotificationToUser (run own_room_left init) ''u1'' ''ping'' = ([], True)
 \<and> map_of (activeUsers (run eavesdrop init)) ''u1''
     = Some \<lparr>socketId = ''a'', name = ''A'', role = ''patient'', joinedAt = 0\<rparr>
 \<and> sendNotificationToUser (run eavesdrop init) ''u1'' ''ping''
     = ([(''a'', Notification ''ping''), (''b'', Notification ''ping'')], True)"
  by (simp add: own_room_left_def eavesdrop_def scenario_def init_def userA_def userB_def
      sendNotificationToUser_def handler_defs Let_def)

text \<open>
  C10, amended. \<open>sendNotificationToUser\<close>: for a user id without an entry in \<open>activeUsers\<close>
  nothing is delivered and the result is false. For a user id with an entry the result is
  true and the \<open>notification\<close> event is emitted once to the room named by the entry's socket
  id: every connection that is in that room receives it exactly once, and no other
  connection receives anything.
\<close>

theorem sendNotificationToUser_result:
  "(map_of (activeUsers s) uid = None \<longrightarrow> sendNotificationToUser s uid n = ([], False))
 \<and> (\<forall>user. map_of (activeUsers s) uid = Some user \<longrightarrow>
        snd (sendNotificationToUser s uid n) = True
      \<and> fst (sendNotificationToUser s uid n)
          = map (\<lambda>d. (d, Notification n)) (members s (socketId user))
      \<and> (distinct (ids s) \<longrightarrow>
           (\<forall>d. length (filter (\<lambda>x. fst x = d) (fst (sendNotificationToUser s uid n))) =
                  (if d \<in> set (ids s) \<and> in_room s (socketId user) d then 1 else 0))))"
proof -
  have "length (filter (\<lambda>x. fst x = d) (map (\<lambda>d. (d, Notification n)) (members s r))) =
          (if d \<in> set (ids s) \<and> in_room s r d then 1 else 0)"
    if "distinct (ids s)" for d r
    using count_io_to_emit [OF that, of d r "Notification n"] by (simp only: io_to_emit_def)
  then show ?thesis
    by (simp add: sendNotificationToUser_def io_to_emit_def del: filter_map)
qed

theorem sendNotificationToUser_result_witness:
  "map_of (activeUsers demo) ''u3'' = None
 \<and> sendNotificationToUser demo ''u3'' ''ping'' = ([], False)
 \<and> map_of (activeUsers demo) ''u1''
      = Some \<lparr>socketId = ''a'', name = ''A'', role = ''patient'', joinedAt = 0\<rparr>
 \<and> distinct (ids demo)
 \<and> sendNotificationToUser demo ''u1'' ''ping'' = ([(''a'', Notification ''ping'')], True)
 \<and> length (filter (\<lambda>x. fst x = ''a'') (fst (sendNotificationToUser demo ''u1'' ''ping''))) = 1
 \<and> length (filter (\<lambda>x. fst x = ''b'') (fst (sendNotificationToUser demo ''u1'' ''ping''))) = 0"
proof -
  have h: "map_of (activeUsers demo) ''u3'' = None"
    "map_of (activeUsers demo) ''u1''
      = Some \<lparr>socketId = ''a'', name = ''A'', role = ''patient'', joinedAt = 0\<rparr>"
    "distinct (ids demo)"
    by (simp_all add: demo_defs)
  have m: "members demo ''a'' = [''a'']"
    by (simp add: members_def in_room_def demo_defs)
  have r: "''a'' \<in> set (ids demo)" "in_room demo ''a'' ''a''" "\<not> in_room demo ''a'' ''b''"
    by (simp_all add: in_room_def demo_defs)
  note absent = sendNotificationToUser_result [of demo "''u3''" "''ping''"]
  note present = sendNotificationToUser_result [of demo "''u1''" "''ping''"]
  from absent h have 1: "sendNotificationToUser demo ''u3'' ''ping'' = ([], False)"
    by blast
  from present h have 2: "snd (sendNotificationToUser demo ''u1'' ''ping'') = True
      \<and> fst (sendNotificationToUser demo ''u1'' ''ping'') = [(''a'', Notification ''ping'')]
      \<and> (\<forall>d. length (filter (\<lambda>x. fst x = d) (fst (sendNotificationToUser demo ''u1'' ''ping''))) =
           (if d \<in> set (ids demo) \<and> in_room demo ''a'' d then 1 else 0))"
    by (auto simp only: m active_user.simps list.map)
  then have 3: "sendNotificationToUser demo ''u1'' ''ping'' = ([(''a'', Notification ''ping'')], True)"
    by (cases "sendNotificationToUser demo ''u1'' ''ping''") simp
  from 2 have 4:
    "length (filter (\<lambda>x. fst x = ''a'') (fst (sendNotificationToUser demo ''u1'' ''ping''))) =
       (if ''a'' \<in> set (ids demo) \<and> in_room demo ''a'' ''a'' then 1 else 0)"
    "length (filter (\<lambda>x. fst x = ''b'') (fst (sendNotificationToUser demo ''u1'' ''ping''))) =
       (if ''b'' \<in> set (ids demo) \<and> in_room demo ''a'' ''b'' then 1 else 0)"
    by blast+
  from h 1 3 show ?thesis
    unfolding 4 using r by simp
qed

subsection \<open>Room membership\<close>

lemma run_append: "run (es @ fs) s = run fs (run es s)"
  by (induction es arbitrary: s) simp_all

lemma upd_socket_twice: "upd_socket c f (upd_socket c g s) = upd_socket c (\<lambda>k. f (g k)) s"
  by (cases "sockets s c") (simp_all add: upd_socket_def)

lemma upd_socket_same: "(\<And>k. f k = k) \<Longrightarrow> upd_socket c f s = s"
  by (cases "sockets s c") (simp_all add: upd_socket_def map_upd_triv)

lemma fold_socket_leave:
  "fold (socket_leave c) rs s =
     upd_socket c (\<lambda>k. k\<lparr>rooms := filter (\<lambda>r. r \<notin> set rs) (rooms k)\<rparr>) s"
proof (induction rs arbitrary: s)
  case Nil
  show ?case by (simp add: upd_socket_same)
next
  case (Cons r rs)
  have "filter (\<lambda>x. x \<notin> set rs) (removeAll r xs) = filter (\<lambda>x. x \<noteq> r \<and> x \<notin> set rs) xs"
    for xs :: "room list"
    by (induction xs) auto
  then show ?case
    by (simp add: Cons.IH) (simp add: socket_leave_def upd_socket_twice)
qed

lemma joinGroup_state:
  assumes "sockets s c = Some k" and "userId k = Some u" and "u \<noteq> []"
  shows "fst (on_joinGroup c g s) =
           s\<lparr>sockets := (sockets s)(c \<mapsto> k\<lparr>rooms :=
                (let rs = filter (\<lambda>r. r \<notin> set (previousRooms s u)) (rooms k)
                 in if g \<in> set rs then rs else rs @ [g])\<rparr>),
             userRooms := (userRooms s)(u \<mapsto> [g])\<rparr>"
  using assms
  by (simp add: on_joinGroup_def Let_def fold_socket_leave socket_join_def upd_socket_def)

lemma joinGroup_step:
  assumes "sockets s c = Some k" and "connected k" and "userId k = Some u" and "u \<noteq> []"
  shows "\<exists>k'. sockets (fst (step (JoinGroup c g) s)) c = Some k' \<and> connected k'
           \<and> userId k' = Some u
           \<and> userRooms (fst (step (JoinGroup c g) s)) u = Some [g]
           \<and> set (rooms k') = insert g (set (rooms k) - set (previousRooms s u))"
  using assms
  by (auto simp add: is_connected_def joinGroup_state Let_def)




subsection \<open>The connection registry\<close>

lemma activeUsers_onclose:
  "map_of (activeUsers (fst (socket_onclose c s))) u =
     (if (\<exists>k. sockets s c = Some k \<and> connected k \<and> userId k = Some u \<and> u \<noteq> [])
      then None else map_of (activeUsers s) u)"
  by (auto simp add: socket_onclose_def on_disconnect_def upd_socket_def is_connected_def Let_def
      AList.delete_conv' split: option.splits)

lemma activeUsers_auth_fail:
  "activeUsers (fst (auth_fail c reason s)) = activeUsers (fst (socket_onclose c s))"
  by (simp add: auth_fail_def split: prod.splits)

lemma activeUsers_authenticate_rejected:
  "auth_rejected res \<Longrightarrow>
   activeUsers (fst (on_authenticate c res now s)) = activeUsers (fst (socket_onclose c s))"
  by (auto simp add: on_authenticate_def auth_rejected_def activeUsers_auth_fail split: auth_result.splits)

lemma activeUsers_authenticate_accepted:
  "doc_isActive d \<Longrightarrow>
   activeUsers (fst (on_authenticate c (UserFound d) now s)) =
     AList.update (doc_id d) \<lparr>socketId = c, name = doc_name d, role = doc_role d, joinedAt = now\<rparr>
       (activeUsers s)"
  by (simp add: on_authenticate_def Let_def upd_socket_def split: option.splits)

lemma activeUsers_fold_leave: "activeUsers (fold (socket_leave c) rs s) = activeUsers s"
  by (induction rs arbitrary: s) (simp_all add: socket_leave_def upd_socket_def split: option.splits)

lemma activeUsers_joinGroup: "activeUsers (fst (on_joinGroup c g s)) = activeUsers s"
  by (simp add: on_joinGroup_def Let_def socket_join_def upd_socket_def activeUsers_fold_leave
      split: option.splits)

lemma activeUsers_other:
  "activeUsers (fst (on_connect c s)) = activeUsers s"
  "activeUsers (fst (on_sendMessage c gid msg mid now s)) = activeUsers s"
  "activeUsers (fst (on_privateMessage c rid msg mid now s)) = activeUsers s"
  "activeUsers (fst (on_typing c g b s)) = activeUsers s"
  "activeUsers (fst (on_joinTherapySession c x s)) = activeUsers s"
  "activeUsers (fst (on_videoCallSignal c x sg ty s)) = activeUsers s"
  by (simp_all add: on_connect_def on_sendMessage_def on_privateMessage_def on_typing_def
      on_joinTherapySession_def on_videoCallSignal_def socket_join_def upd_socket_def Let_def
      split: option.splits)

lemma registry_removed_only_by_close:
  assumes "map_of (activeUsers s) u \<noteq> None"
    and "map_of (activeUsers (fst (step e s))) u = None"
  shows "\<exists>c k. sockets s c = Some k \<and> connected k \<and> userId k = Some u
           \<and> (e = Disconnect c \<or> (\<exists>res now. e = Authenticate c res now \<and> auth_rejected res))"
proof (cases e)
  case (Authenticate c res now)
  show ?thesis
  proof (cases "auth_rejected res")
    case True
    with assms Authenticate show ?thesis
      by (auto simp add: activeUsers_authenticate_rejected activeUsers_onclose split: if_splits)
  next
    case False
    then obtain d where "res = UserFound d" "doc_isActive d"
      by (auto simp: auth_rejected_def split: auth_result.splits)
    with assms Authenticate show ?thesis
      by (auto simp add: activeUsers_authenticate_accepted AList.update_conv' split: if_splits)
  qed
next
  case (Disconnect c)
  with assms show ?thesis
    by (auto simp add: activeUsers_onclose split: if_splits)
qed (use assms in \<open>auto simp add: activeUsers_joinGroup activeUsers_other split: if_splits\<close>)

text \<open>
  C2 as stated fails: the \<open>disconnect\<close> handler deletes the entry of the socket's user id
  whichever socket the entry names. Here the same user authenticates on \<open>a\<close> and then on
  \<open>a2\<close>; the entry names \<open>a2\<close>, and the disconnect of \<open>a\<close> removes it while \<open>a2\<close> stays
  connected.
\<close>

theorem registry_counterexample:
  "map_of (activeUsers (run relogin init)) ''u1''
     = Some \<lparr>socketId = ''a2'', name = ''A'', role = ''patient'', joinedAt = 1\<rparr>
 \<and> is_connected (fst (step (Disconnect ''a'') (run relogin init))) ''a2''
 \<and> map_of (activeUsers (fst (step (Disconnect ''a'') (run relogin init)))) ''u1'' = None"
  by (simp add: relogin_def init_def userA_def handler_defs Let_def)

text \<open>
  C2, amended. A successful authentication of user \<open>d\<close> on socket \<open>c\<close> makes the entry of
  that user id name \<open>c\<close>, replacing an earlier entry (the keys stay distinct) and leaving
  all other entries alone. Closing a connected socket that carries user id \<open>u\<close>, by a
  \<open>disconnect\<close> or by a rejected authentication on it, removes the entry of \<open>u\<close>, whichever
  socket created it. No event removes an entry except such a closing of a connected socket
  carrying that user id.
\<close>

theorem registry_entry_lifecycle:
  "(sockets s c = Some k \<and> doc_isActive d \<longrightarrow>
      (let s' = fst (step (Authenticate c (UserFound d) now) s) in
         map_of (activeUsers s') (doc_id d)
           = Some \<lparr>socketId = c, name = doc_name d, role = doc_role d, joinedAt = now\<rparr>
       \<and> (\<forall>v. v \<noteq> doc_id d \<longrightarrow> map_of (activeUsers s') v = map_of (activeUsers s) v)
       \<and> (distinct (map fst (activeUsers s)) \<longrightarrow> distinct (map fst (activeUsers s')))))
 \<and> (sockets s c = Some k \<and> connected k \<and> userId k = Some u \<and> u \<noteq> [] \<longrightarrow>
      map_of (activeUsers (fst (step (Disconnect c) s))) u = None
    \<and> (\<forall>res t. auth_rejected res \<longrightarrow>
           map_of (activeUsers (fst (step (Authenticate c res t) s))) u = None))
 \<and> (map_of (activeUsers s) u \<noteq> None \<and> map_of (activeUsers (fst (step e s))) u = None \<longrightarrow>
      (\<exists>c' k'. sockets s c' = Some k' \<and> connected k' \<and> userId k' = Some u
         \<and> (e = Disconnect c' \<or> (\<exists>res t. e = Authenticate c' res t \<and> auth_rejected res))))"
proof (intro conjI impI allI)
  assume "sockets s c = Some k \<and> doc_isActive d"
  then show "let s' = fst (step (Authenticate c (UserFound d) now) s) in
         map_of (activeUsers s') (doc_id d)
           = Some \<lparr>socketId = c, name = doc_name d, role = doc_role d, joinedAt = now\<rparr>
       \<and> (\<forall>v. v \<noteq> doc_id d \<longrightarrow> map_of (activeUsers s') v = map_of (activeUsers s) v)
       \<and> (distinct (map fst (activeUsers s)) \<longrightarrow> distinct (map fst (activeUsers s')))"
    by (simp add: Let_def activeUsers_authenticate_accepted AList.update_conv' AList.distinct_update)
next
  assume "sockets s c = Some k \<and> connected k \<and> userId k = Some u \<and> u \<noteq> []"
  then show "map_of (activeUsers (fst (step (Disconnect c) s))) u = None"
    by (simp add: activeUsers_onclose)
next
  fix res t
  assume "sockets s c = Some k \<and> connected k \<and> userId k = Some u \<and> u \<noteq> []"
    and "auth_rejected res"
  then show "map_of (activeUsers (fst (step (Authenticate c res t) s))) u = None"
    by (simp add: activeUsers_authenticate_rejected activeUsers_onclose)
next
  assume "map_of (activeUsers s) u \<noteq> None \<and> map_of (activeUsers (fst (step e s))) u = None"
  then show "\<exists>c' k'. sockets s c' = Some k' \<and> connected k' \<and> userId k' = Some u
         \<and> (e = Disconnect c' \<or> (\<exists>res t. e = Authenticate c' res t \<and> auth_rejected res))"
    using registry_removed_only_by_close [of s u e] by blast
qed

theorem registry_entry_lifecycle_witness:
  "sockets demo ''n'' = Some sock_n \<and> doc_isActive userA
 \<and> map_of (activeUsers (fst (step (Authenticate ''n'' (UserFound userA) 5) demo))) ''u1''
      = Some \<lparr>socketId = ''n'', name = ''A'', role = ''patient'', joinedAt = 5\<rparr>
 \<and> map_of (activeUsers (fst (step (Authenticate ''n'' (UserFound userA) 5) demo))) ''u2''
      = map_of (activeUsers demo) ''u2''
 \<and> sockets demo ''a'' = Some sock_a \<and> connected sock_a \<and> userId sock_a = Some ''u1'' \<and> ''u1'' \<noteq> []
 \<and> map_of (activeUsers demo) ''u1'' \<noteq> None
 \<and> map_of (activeUsers (fst (step (Disconnect ''a'') demo))) ''u1'' = None
 \<and> auth_rejected UserNull
 \<and> map_of (activeUsers (fst (step (Authenticate ''a'' UserNull 9) demo))) ''u1'' = None
 \<and> (\<exists>c' k'. sockets demo c' = Some k' \<and> connected k' \<and> userId k' = Some ''u1''
       \<and> (Authenticate ''a'' UserNull 9 = Disconnect c'
          \<or> (\<exists>res t. Authenticate ''a'' UserNull 9 = Authenticate c' res t \<and> auth_rejected res)))"
proof -
  have h: "sockets demo ''n'' = Some sock_n" "doc_isActive userA"
    "sockets demo ''a'' = Some sock_a" "connected sock_a" "userId sock_a = Some ''u1''" "''u1'' \<noteq> []"
    "map_of (activeUsers demo) ''u1'' \<noteq> None" "auth_rejected UserNull"
    by (simp_all add: demo_defs userA_def auth_rejected_def)
  have d: "doc_id userA = ''u1''" "doc_name userA = ''A''" "doc_role userA = ''patient''"
    by (simp_all add: userA_def)
  note n = registry_entry_lifecycle [of demo "''n''" sock_n userA 5 "''u1''" "Disconnect ''a''"]
  note a = registry_entry_lifecycle [of demo "''a''" sock_a userA 5 "''u1''"
      "Authenticate ''a'' UserNull 9"]
  from n h have 1: "map_of (activeUsers (fst (step (Authenticate ''n'' (UserFound userA) 5) demo))) ''u1''
      = Some \<lparr>socketId = ''n'', name = ''A'', role = ''patient'', joinedAt = 5\<rparr>"
    "map_of (activeUsers (fst (step (Authenticate ''n'' (UserFound userA) 5) demo))) ''u2''
      = map_of (activeUsers demo) ''u2''"
    by (simp_all add: Let_def d del: step.simps)
  from a h have 2: "map_of (activeUsers (fst (step (Disconnect ''a'') demo))) ''u1'' = None"
    "map_of (activeUsers (fst (step (Authenticate ''a'' UserNull 9) demo))) ''u1'' = None"
    by (simp_all del: step.simps)
  from a h 2 have 3: "\<exists>c' k'. sockets demo c' = Some k' \<and> connected k' \<and> userId k' = Some ''u1''
       \<and> (Authenticate ''a'' UserNull 9 = Disconnect c'
          \<or> (\<exists>res t. Authenticate ''a'' UserNull 9 = Authenticate c' res t \<and> auth_rejected res))"
    by blast
  from h 1 2 3 show ?thesis by blast
qed

subsection \<open>Disconnection\<close>

text \<open>
  Run on a socket that is still in its rooms, the \<open>disconnect\<close> handler announces the
  departure to the other members of each room. But the listener is registered for
  \<open>disconnect\<close>, which Socket.IO emits after the socket has left its rooms, so that the
  loop over \<open>socket.rooms\<close> finds nothing: closing a socket delivers no event at all.
\<close>

lemma onclose_delivers_nothing: "snd (socket_onclose c s) = []"
  by (simp add: socket_onclose_def on_disconnect_def upd_socket_def is_connected_def Let_def
      split: option.splits)

lemma on_disconnect_with_rooms:
  "snd (on_disconnect ''b'' demo) = [(''a'', UserLeft (ident_of sock_b))]"
  by (simp add: demo_defs handler_defs Let_def)

text \<open>
  C1. B, authenticated and in \<open>grief-support\<close> together with A, disconnects. B's user id
  is removed from \<open>activeUsers\<close> and from \<open>userRooms\<close>, but no \<open>userLeft\<close> event reaches
  A.
\<close>

theorem disconnect_emits_no_userLeft:
  "in_room demo ''grief-support'' ''a'' \<and> in_room demo ''grief-support'' ''b''
 \<and> snd (step (Disconnect ''b'') demo) = []
 \<and> map_of (activeUsers (fst (step (Disconnect ''b'') demo))) ''u2'' = None
 \<and> userRooms (fst (step (Disconnect ''b'') demo)) ''u2'' = None"
  by (simp add: demo_defs handler_defs Let_def)

subsection \<open>Room membership entries and registry entries\<close>

lemma consistentI:
  assumes "dom (sockets s) \<subseteq> set (ids s)"
    and "\<And>u. userRooms s u \<noteq> None \<Longrightarrow> registered s u"
    and "\<And>c u. who s c = Some u \<Longrightarrow> u \<noteq> [] \<Longrightarrow> registered s u"
    and "\<And>c c' u. who s c = Some u \<Longrightarrow> who s c' = Some u \<Longrightarrow> c = c'"
  shows "consistent s"
  using assms unfolding consistent_def by blast

lemma consistentD:
  assumes "consistent s"
  shows "dom (sockets s) \<subseteq> set (ids s)"
    and "userRooms s u \<noteq> None \<Longrightarrow> registered s u"
    and "who s c = Some u \<Longrightarrow> u \<noteq> [] \<Longrightarrow> registered s u"
    and "who s c = Some u \<Longrightarrow> who s c' = Some u \<Longrightarrow> c = c'"
  using assms unfolding consistent_def by blast+

text \<open>Changing only the rooms of a socket.\<close>

lemma consistent_upd_rooms:
  assumes f: "\<And>k. connected (f k) = connected k \<and> userId (f k) = userId k"
  shows "consistent (upd_socket c f s) = consistent s"
proof (cases "sockets s c")
  case None
  then show ?thesis by (simp add: upd_socket_def)
next
  case (Some k)
  have w: "who (upd_socket c f s) = who s"
    using Some f by (auto simp add: who_def upd_socket_def fun_eq_iff)
  have d: "dom (sockets (upd_socket c f s)) = dom (sockets s)"
    using Some by (auto simp add: upd_socket_def)
  have r: "registered (upd_socket c f s) = registered s" "ids (upd_socket c f s) = ids s"
    "userRooms (upd_socket c f s) = userRooms s"
    using Some by (simp_all add: upd_socket_def registered_def fun_eq_iff)
  show ?thesis
    unfolding consistent_def w d r ..
qed

lemma consistent_connect:
  assumes "consistent s"
  shows "consistent (fst (on_connect c s))"
proof (cases "c \<in> set (ids s) \<or> sockets s c \<noteq> None")
  case True
  with assms show ?thesis by (simp add: on_connect_def)
next
  case False
  let ?s' = "fst (on_connect c s)"
  have w: "who ?s' x = (if x = c then None else who s x)" for x
    using False by (simp add: on_connect_def who_def)
  have o: "dom (sockets ?s') = insert c (dom (sockets s))"
    "ids ?s' = ids s @ [c]" "registered ?s' = registered s" "userRooms ?s' = userRooms s" for x
    using False by (auto simp add: on_connect_def registered_def fun_eq_iff)
  show ?thesis
  proof (rule consistentI)
    show "dom (sockets ?s') \<subseteq> set (ids ?s')"
      using consistentD(1) [OF assms] by (auto simp add: o)
  next
    fix u assume "userRooms ?s' u \<noteq> None"
    then show "registered ?s' u"
      using consistentD(2) [OF assms, of u] by (simp add: o)
  next
    fix x u assume "who ?s' x = Some u" "u \<noteq> []"
    then show "registered ?s' u"
      using consistentD(3) [OF assms, of x u] by (simp add: o w split: if_splits)
  next
    fix x x' u assume "who ?s' x = Some u" "who ?s' x' = Some u"
    then show "x = x'"
      using consistentD(4) [OF assms, of x u x'] by (simp add: w split: if_splits)
  qed
qed

lemma consistent_joinTherapySession:
  "consistent s \<Longrightarrow> consistent (fst (on_joinTherapySession c x s))"
  by (auto simp add: on_joinTherapySession_def Let_def socket_join_def consistent_upd_rooms
      split: option.splits)

lemma consistent_joinGroup:
  assumes "consistent s" and "is_connected s c"
  shows "consistent (fst (on_joinGroup c g s))"
proof (cases "sockets s c")
  case None
  with assms show ?thesis by (simp add: on_joinGroup_def)
next
  case k: (Some k)
  show ?thesis
  proof (cases "userId k")
    case None
    with k assms show ?thesis by (simp add: on_joinGroup_def)
  next
    case (Some u)
    show ?thesis
    proof (cases "u = []")
      case True
      with Some k assms show ?thesis by (simp add: on_joinGroup_def)
    next
      case False
      have "who s c = Some u"
        using assms(2) Some k by (simp add: who_def is_connected_def)
      with assms(1) False have r: "registered s u"
        by (auto dest: consistentD(3))
      let ?s3 = "socket_join c g (fold (socket_leave c) (previousRooms s u) s)"
      have s3: "?s3 = upd_socket c (\<lambda>k. (k\<lparr>rooms := filter (\<lambda>r. r \<notin> set (previousRooms s u)) (rooms k)\<rparr>)
                 \<lparr>rooms := (if g \<in> set (filter (\<lambda>r. r \<notin> set (previousRooms s u)) (rooms k))
                            then filter (\<lambda>r. r \<notin> set (previousRooms s u)) (rooms k)
                            else filter (\<lambda>r. r \<notin> set (previousRooms s u)) (rooms k) @ [g])\<rparr>) s"
        by (simp add: fold_socket_leave socket_join_def upd_socket_twice cong: if_cong)
      have c3: "consistent ?s3"
        unfolding s3 by (subst consistent_upd_rooms) (simp_all add: assms(1))
      have eq: "fst (on_joinGroup c g s) = ?s3\<lparr>userRooms := (userRooms ?s3)(u \<mapsto> [g])\<rparr>"
        using Some k False by (simp add: on_joinGroup_def Let_def)
      have o: "userRooms ?s3 = userRooms s" "registered ?s3 = registered s"
        "activeUsers ?s3 = activeUsers s"
        unfolding s3 using k by (simp_all add: upd_socket_def registered_def fun_eq_iff)
      show ?thesis
        unfolding eq
      proof (rule consistentI)
        show "dom (sockets (?s3\<lparr>userRooms := (userRooms ?s3)(u \<mapsto> [g])\<rparr>)) \<subseteq> set (ids (?s3\<lparr>userRooms := (userRooms ?s3)(u \<mapsto> [g])\<rparr>))"
          using consistentD(1) [OF c3] by simp
      next
        fix v assume "userRooms (?s3\<lparr>userRooms := (userRooms ?s3)(u \<mapsto> [g])\<rparr>) v \<noteq> None"
        then show "registered (?s3\<lparr>userRooms := (userRooms ?s3)(u \<mapsto> [g])\<rparr>) v"
          using consistentD(2) [OF assms(1), of v] r
          by (auto simp add: o registered_def split: if_splits)
      next
        fix x v assume "who (?s3\<lparr>userRooms := (userRooms ?s3)(u \<mapsto> [g])\<rparr>) x = Some v" "v \<noteq> []"
        then show "registered (?s3\<lparr>userRooms := (userRooms ?s3)(u \<mapsto> [g])\<rparr>) v"
          using consistentD(3) [OF c3, of x v] by (simp add: who_def registered_def)
      next
        fix x x' v
        assume "who (?s3\<lparr>userRooms := (userRooms ?s3)(u \<mapsto> [g])\<rparr>) x = Some v"
          "who (?s3\<lparr>userRooms := (userRooms ?s3)(u \<mapsto> [g])\<rparr>) x' = Some v"
        then show "x = x'"
          using consistentD(4) [OF c3, of x v x'] by (simp add: who_def)
      qed
    qed
  qed
qed

lemma onclose_state:
  assumes "sockets s c = Some k" and "connected k"
  shows "fst (socket_onclose c s) =
           (case userId k of
              None \<Rightarrow> s\<lparr>sockets := (sockets s)(c \<mapsto> k\<lparr>rooms := [], connected := False\<rparr>)\<rparr>
            | Some u \<Rightarrow>
                if u = [] then s\<lparr>sockets := (sockets s)(c \<mapsto> k\<lparr>rooms := [], connected := False\<rparr>)\<rparr>
                else s\<lparr>sockets := (sockets s)(c \<mapsto> k\<lparr>rooms := [], connected := False\<rparr>),
                       activeUsers := AList.delete u (activeUsers s),
                       userRooms := (userRooms s)(u := None)\<rparr>)"
  using assms
  by (simp add: socket_onclose_def is_connected_def on_disconnect_def upd_socket_def Let_def
      split: option.splits)

lemma onclose_closed: "\<not> is_connected s c \<Longrightarrow> fst (socket_onclose c s) = s"
  by (simp add: socket_onclose_def)

lemma consistent_onclose:
  assumes "consistent s"
  shows "consistent (fst (socket_onclose c s))"
proof (cases "is_connected s c")
  case False
  with assms show ?thesis by (simp add: onclose_closed)
next
  case True
  then obtain k where k: "sockets s c = Some k" "connected k"
    by (auto simp: is_connected_def split: option.splits)
  let ?s' = "fst (socket_onclose c s)"
  have w: "who ?s' x = (if x = c then None else who s x)" for x
    using k by (simp add: onclose_state who_def split: option.splits)
  have d: "dom (sockets ?s') = dom (sockets s)" "ids ?s' = ids s"
    using k by (auto simp add: onclose_state split: option.splits if_splits)
  have wc: "who s c = userId k"
    using k by (simp add: who_def)
  show ?thesis
  proof (cases "truthy (userId k)")
    case False
    then have o: "registered ?s' = registered s" "userRooms ?s' = userRooms s"
      "dom (sockets ?s') = dom (sockets s)" "ids ?s' = ids s"
      using k d by (auto simp add: onclose_state registered_def truthy_def fun_eq_iff split: option.splits)
    show ?thesis
    proof (rule consistentI)
      show "dom (sockets ?s') \<subseteq> set (ids ?s')"
        using consistentD(1) [OF assms] by (simp add: d)
    next
      fix u assume "userRooms ?s' u \<noteq> None"
      then show "registered ?s' u"
        using consistentD(2) [OF assms, of u] by (simp add: o)
    next
      fix x u assume "who ?s' x = Some u" "u \<noteq> []"
      then show "registered ?s' u"
        using consistentD(3) [OF assms, of x u] by (simp add: o w split: if_splits)
    next
      fix x x' u assume "who ?s' x = Some u" "who ?s' x' = Some u"
      then show "x = x'"
        using consistentD(4) [OF assms, of x u x'] by (simp add: w split: if_splits)
    qed
  next
    case True
    then obtain u where u: "userId k = Some u" "u \<noteq> []"
      by (auto simp: truthy_def split: option.splits)
    have o: "registered ?s' v \<longleftrightarrow> registered s v \<and> v \<noteq> u"
      "userRooms ?s' v = (if v = u then None else userRooms s v)"
      "dom (sockets ?s') = dom (sockets s)" "ids ?s' = ids s" for v
      using k u d by (auto simp add: onclose_state registered_def AList.delete_conv')
    show ?thesis
    proof (rule consistentI)
      show "dom (sockets ?s') \<subseteq> set (ids ?s')"
        using consistentD(1) [OF assms] by (simp add: d)
    next
      fix v assume "userRooms ?s' v \<noteq> None"
      then show "registered ?s' v"
        using consistentD(2) [OF assms, of v] by (simp add: o split: if_splits)
    next
      fix x v assume a: "who ?s' x = Some v" "v \<noteq> []"
      then have "x \<noteq> c" "who s x = Some v"
        by (simp_all add: w split: if_splits)
      moreover from this have "v \<noteq> u"
        using consistentD(4) [OF assms, of x u c] wc u by auto
      ultimately show "registered ?s' v"
        using consistentD(3) [OF assms, of x v] a by (simp add: o)
    next
      fix x x' v assume "who ?s' x = Some v" "who ?s' x' = Some v"
      then show "x = x'"
        using consistentD(4) [OF assms, of x v x'] by (simp add: w split: if_splits)
    qed
  qed
qed

lemma authenticate_rejected_state:
  "auth_rejected res \<Longrightarrow> fst (on_authenticate c res now s) = fst (socket_onclose c s)"
  by (auto simp add: on_authenticate_def auth_fail_def auth_rejected_def
      split: auth_result.splits prod.splits)

lemma authenticate_accepted_state:
  assumes "sockets s c = Some k" and "doc_isActive d"
  shows "fst (on_authenticate c (UserFound d) now s) =
           s\<lparr>sockets := (sockets s)(c \<mapsto> k\<lparr>userId := Some (doc_id d), userRole := Some (doc_role d),
                                            userName := Some (doc_name d)\<rparr>),
             activeUsers := AList.update (doc_id d)
                \<lparr>socketId = c, name = doc_name d, role = doc_role d, joinedAt = now\<rparr> (activeUsers s)\<rparr>"
  using assms by (simp add: on_authenticate_def upd_socket_def Let_def)

lemma consistent_authenticate:
  assumes "consistent s" and "admissible (Authenticate c res now) s" and "sockets s c \<noteq> None"
  shows "consistent (fst (on_authenticate c res now s))"
proof (cases "auth_rejected res")
  case True
  then show ?thesis
    by (simp add: authenticate_rejected_state consistent_onclose assms(1))
next
  case False
  then obtain d where d: "res = UserFound d" "doc_isActive d"
    by (auto simp: auth_rejected_def split: auth_result.splits)
  from assms(3) obtain k where k: "sockets s c = Some k" by auto
  let ?s' = "fst (on_authenticate c (UserFound d) now s)"
  have w: "who ?s' x = (if x = c then (if connected k then Some (doc_id d) else None) else who s x)" for x
    using k d by (simp add: authenticate_accepted_state who_def)
  have o: "dom (sockets ?s') = dom (sockets s)" "ids ?s' = ids s"
    "registered ?s' v \<longleftrightarrow> registered s v \<or> v = doc_id d" "userRooms ?s' = userRooms s" for v
    using k d by (auto simp add: authenticate_accepted_state registered_def AList.update_conv')
  have fresh: "who s x = Some (doc_id d) \<Longrightarrow> x = c" for x
  proof (rule ccontr)
    assume a: "who s x = Some (doc_id d)" "x \<noteq> c"
    then have "x \<in> dom (sockets s)" by (auto simp: who_def split: option.splits)
    then have "x \<in> set (ids s)" using consistentD(1) [OF assms(1)] by blast
    with a have "logged_in_elsewhere s c (doc_id d)"
      by (auto simp: logged_in_elsewhere_def)
    with assms(2) d show False by simp
  qed
  show ?thesis
    unfolding d(1)
  proof (rule consistentI)
    show "dom (sockets ?s') \<subseteq> set (ids ?s')"
      using consistentD(1) [OF assms(1)] by (auto simp add: o)
  next
    fix u assume "userRooms ?s' u \<noteq> None"
    then show "registered ?s' u"
      using consistentD(2) [OF assms(1), of u] by (simp add: o)
  next
    fix x u assume "who ?s' x = Some u" "u \<noteq> []"
    then show "registered ?s' u"
      using consistentD(3) [OF assms(1), of x u] by (auto simp add: o w split: if_splits)
  next
    fix x x' u assume "who ?s' x = Some u" "who ?s' x' = Some u"
    then show "x = x'"
      using consistentD(4) [OF assms(1), of x u x'] fresh [of x] fresh [of x']
      by (auto simp add: w split: if_splits)
  qed
qed

lemma consistent_step:
  assumes "consistent s" and "admissible e s"
  shows "consistent (fst (step e s))"
proof (cases e)
  case (Connect c)
  with assms show ?thesis by (simp add: consistent_connect)
next
  case (Authenticate c res now)
  with assms show ?thesis by (simp add: consistent_authenticate del: admissible.simps)
next
  case (JoinGroup c g)
  with assms show ?thesis by (simp add: consistent_joinGroup)
next
  case (JoinTherapySession c x)
  with assms show ?thesis by (simp add: consistent_joinTherapySession)
next
  case (Disconnect c)
  with assms show ?thesis by (simp add: consistent_onclose)
qed (use assms in \<open>simp_all add: on_sendMessage_def on_typing_def on_privateMessage_def
      on_videoCallSignal_def split: option.splits prod.splits\<close>)

lemma consistent_init: "consistent init"
  by (simp add: consistent_def init_def who_def registered_def)

lemma consistent_run:
  "consistent s \<Longrightarrow> single_login es s \<Longrightarrow> consistent (run es s)"
  by (induction es arbitrary: s) (simp_all add: consistent_step del: step.simps)

text \<open>
  C5 as stated fails. The same user authenticates on \<open>a\<close> and on \<open>a2\<close>; \<open>a2\<close> disconnects,
  which deletes the user's registry entry; \<open>a\<close>, still carrying the user id, joins a room,
  which writes a \<open>userRooms\<close> entry for a user id that has no registry entry.
\<close>

theorem membership_without_registry_counterexample:
  "userRooms (run duplicate_login init) ''u1'' = Some [''grief-support'']
 \<and> map_of (activeUsers (run duplicate_login init)) ''u1'' = None"
  by (simp add: duplicate_login_def relogin_def init_def userA_def handler_defs Let_def)

text \<open>
  C5, amended. In every state reached from the initial state by a run in which no
  successful authentication gives a socket a user id that another connected socket
  carries at that moment, every user id with a \<open>userRooms\<close> entry has an \<open>activeUsers\<close>
  entry.
\<close>

theorem membership_implies_registry:
  assumes "single_login es init" and "userRooms (run es init) u \<noteq> None"
  shows "map_of (activeUsers (run es init)) u \<noteq> None"
  using consistentD(2) [OF consistent_run [OF consistent_init assms(1)], of u] assms(2)
  by (simp add: registered_def)

theorem membership_implies_registry_witness:
  "single_login scenario init \<and> userRooms (run scenario init) ''u1'' \<noteq> None
 \<and> map_of (activeUsers (run scenario init)) ''u1'' \<noteq> None"
proof -
  have s: "single_login scenario init"
    by (simp add: scenario_def init_def userA_def userB_def handler_defs Let_def
        logged_in_elsewhere_def who_def)
  have u: "userRooms (run scenario init) ''u1'' \<noteq> None"
    by (simp add: demo_reachable demo_defs)
  from membership_implies_registry [OF s u] s u show ?thesis by blast
qed

subsection \<open>Supplementary facts\<close>

text \<open>Socket ids stay distinct along every run from the initial state.\<close>

lemma ids_upd_socket: "ids (upd_socket c f s) = ids s"
  by (cases "sockets s c") (simp_all add: upd_socket_def)

lemma ids_onclose: "ids (fst (socket_onclose c s)) = ids s"
  by (simp add: socket_onclose_def on_disconnect_def ids_upd_socket Let_def upd_socket_def
      split: option.splits)

lemma ids_authenticate: "ids (fst (on_authenticate c res now s)) = ids s"
proof (cases "auth_rejected res")
  case True
  then show ?thesis by (simp add: authenticate_rejected_state ids_onclose)
next
  case False
  then show ?thesis
    by (auto simp add: on_authenticate_def Let_def ids_upd_socket auth_rejected_def
        split: auth_result.splits)
qed

lemma ids_joinGroup: "ids (fst (on_joinGroup c g s)) = ids s"
  by (simp add: on_joinGroup_def Let_def fold_socket_leave socket_join_def ids_upd_socket
      split: option.splits)

lemma ids_step:
  "ids (fst (step e s)) =
     (case e of Connect c \<Rightarrow> if c \<in> set (ids s) \<or> sockets s c \<noteq> None then ids s else ids s @ [c]
      | _ \<Rightarrow> ids s)"
  by (cases e)
     (simp_all add: on_connect_def ids_authenticate ids_joinGroup ids_onclose on_sendMessage_def
        on_typing_def on_privateMessage_def on_joinTherapySession_def on_videoCallSignal_def
        socket_join_def ids_upd_socket Let_def split: option.splits prod.splits)

lemma distinct_ids_step: "distinct (ids s) \<Longrightarrow> distinct (ids (fst (step e s)))"
  by (simp add: ids_step del: step.simps split: event.splits)

lemma distinct_ids_run: "distinct (ids s) \<Longrightarrow> distinct (ids (run es s))"
  by (induction es arbitrary: s) (simp_all add: distinct_ids_step del: step.simps)

lemma distinct_ids_reachable: "distinct (ids (run es init))"
  by (rule distinct_ids_run) (simp add: init_def)

subsection \<open>Sequences of join-room calls\<close>

lemma frame_upd_socket:
  "d \<noteq> c \<Longrightarrow> sockets (upd_socket d f s) c = sockets s c"
  "userRooms (upd_socket d f s) = userRooms s"
  by (cases "sockets s d"; simp add: upd_socket_def)+

lemma frame_onclose:
  assumes "d \<noteq> c" and "who s d \<noteq> Some u"
  shows "sockets (fst (socket_onclose d s)) c = sockets s c"
    and "userRooms (fst (socket_onclose d s)) u = userRooms s u"
proof -
  show "sockets (fst (socket_onclose d s)) c = sockets s c"
  proof (cases "is_connected s d")
    case False
    then show ?thesis by (simp add: onclose_closed)
  next
    case True
    then obtain k where "sockets s d = Some k" "connected k"
      by (auto simp: is_connected_def split: option.splits)
    with assms(1) show ?thesis
      by (simp add: onclose_state split: option.splits)
  qed
  show "userRooms (fst (socket_onclose d s)) u = userRooms s u"
  proof (cases "is_connected s d")
    case False
    then show ?thesis by (simp add: onclose_closed)
  next
    case True
    then obtain k where "sockets s d = Some k" "connected k"
      by (auto simp: is_connected_def split: option.splits)
    with assms(2) show ?thesis
      by (auto simp add: onclose_state who_def split: option.splits)
  qed
qed

lemma frame_authenticate:
  assumes "d \<noteq> c" and "auth_rejected res \<longrightarrow> who s d \<noteq> Some u"
  shows "sockets (fst (on_authenticate d res now s)) c = sockets s c"
    and "userRooms (fst (on_authenticate d res now s)) u = userRooms s u"
proof -
  show "sockets (fst (on_authenticate d res now s)) c = sockets s c"
  proof (cases "auth_rejected res")
    case True
    with assms show ?thesis by (simp add: authenticate_rejected_state frame_onclose)
  next
    case False
    with assms(1) show ?thesis
      by (auto simp add: on_authenticate_def Let_def frame_upd_socket auth_rejected_def
          split: auth_result.splits)
  qed
  show "userRooms (fst (on_authenticate d res now s)) u = userRooms s u"
  proof (cases "auth_rejected res")
    case True
    with assms show ?thesis by (simp add: authenticate_rejected_state frame_onclose)
  next
    case False
    then show ?thesis
      by (auto simp add: on_authenticate_def Let_def frame_upd_socket auth_rejected_def
          split: auth_result.splits)
  qed
qed

lemma frame_joinGroup:
  assumes "d \<noteq> c" and "who s d \<noteq> Some u" and "is_connected s d"
  shows "sockets (fst (on_joinGroup d g s)) c = sockets s c"
    and "userRooms (fst (on_joinGroup d g s)) u = userRooms s u"
  using assms
  by (auto simp add: on_joinGroup_def Let_def fold_socket_leave socket_join_def frame_upd_socket
      who_def is_connected_def split: option.splits)

lemma frame_step:
  assumes "allowed c u s e" and "\<nexists>g. e = JoinGroup c g" and "sockets s c \<noteq> None"
  shows "sockets (fst (step e s)) c = sockets s c \<and> userRooms (fst (step e s)) u = userRooms s u"
proof (cases e)
  case (Connect d)
  with assms show ?thesis by (auto simp add: on_connect_def)
next
  case (Authenticate d res now)
  with assms(1) have "d \<noteq> c" "auth_rejected res \<longrightarrow> who s d \<noteq> Some u"
    by simp_all
  from frame_authenticate [OF this] Authenticate show ?thesis
    by simp
next
  case (JoinGroup d g)
  with assms show ?thesis by (auto simp add: frame_joinGroup)
next
  case (JoinTherapySession d x)
  with assms show ?thesis
    by (auto simp add: on_joinTherapySession_def Let_def socket_join_def frame_upd_socket
        split: option.splits)
next
  case (Disconnect d)
  with assms show ?thesis by (auto simp add: frame_onclose)
qed (simp_all add: on_sendMessage_def on_typing_def on_privateMessage_def on_videoCallSignal_def
      split: option.splits prod.splits)

lemma joinGroup_undisturbed_aux:
  assumes "u \<noteq> []"
  shows "\<exists>k. sockets s c = Some k \<and> connected k \<and> userId k = Some u
           \<and> (J \<noteq> [] \<longrightarrow> userRooms s u = Some [last J] \<and> last J \<in> set (rooms k)
                \<and> (\<forall>g \<in> set J. g \<noteq> last J \<longrightarrow> g \<notin> set (rooms k)))
         \<Longrightarrow> undisturbed c u es s
         \<Longrightarrow> \<exists>k. sockets (run es s) c = Some k \<and> connected k \<and> userId k = Some u
           \<and> (J @ joined c es \<noteq> [] \<longrightarrow>
                userRooms (run es s) u = Some [last (J @ joined c es)]
                \<and> last (J @ joined c es) \<in> set (rooms k)
                \<and> (\<forall>g \<in> set (J @ joined c es). g \<noteq> last (J @ joined c es) \<longrightarrow> g \<notin> set (rooms k)))"
proof (induction es arbitrary: s J)
  case Nil
  then show ?case by simp
next
  case (Cons e es)
  from Cons.prems(1) obtain k where k: "sockets s c = Some k" "connected k" "userId k = Some u"
    and J: "J \<noteq> [] \<Longrightarrow> userRooms s u = Some [last J] \<and> last J \<in> set (rooms k)
                \<and> (\<forall>g \<in> set J. g \<noteq> last J \<longrightarrow> g \<notin> set (rooms k))"
    by blast
  from Cons.prems(2) have il: "undisturbed c u es (fst (step e s))" and e: "allowed c u s e"
    by simp_all
  show ?case
  proof (cases "\<exists>g. e = JoinGroup c g")
    case True
    then obtain g where g: "e = JoinGroup c g" by blast
    from joinGroup_step [OF k assms, of g] obtain k' where
      k': "sockets (fst (step e s)) c = Some k'" "connected k'" "userId k' = Some u"
      "userRooms (fst (step e s)) u = Some [g]"
      "set (rooms k') = insert g (set (rooms k) - set (previousRooms s u))"
      unfolding g by blast
    have "\<exists>k. sockets (fst (step e s)) c = Some k \<and> connected k \<and> userId k = Some u
           \<and> (J @ [g] \<noteq> [] \<longrightarrow> userRooms (fst (step e s)) u = Some [last (J @ [g])]
                \<and> last (J @ [g]) \<in> set (rooms k)
                \<and> (\<forall>x \<in> set (J @ [g]). x \<noteq> last (J @ [g]) \<longrightarrow> x \<notin> set (rooms k)))"
      using k' J by (cases "J = []") (auto simp add: previousRooms_def)
    from Cons.IH [OF this il] show ?thesis
      by (simp add: g del: step.simps)
  next
    case False
    have j: "joined c (e # es) = joined c es"
      using False by (cases e) auto
    from frame_step [OF e False] k J
    have "\<exists>k. sockets (fst (step e s)) c = Some k \<and> connected k \<and> userId k = Some u
           \<and> (J \<noteq> [] \<longrightarrow> userRooms (fst (step e s)) u = Some [last J] \<and> last J \<in> set (rooms k)
                \<and> (\<forall>g \<in> set J. g \<noteq> last J \<longrightarrow> g \<notin> set (rooms k)))"
      by auto
    from Cons.IH [OF this il] show ?thesis
      by (simp add: j del: step.simps joined.simps)
  qed
qed

text \<open>
  C4 as stated fails: \<open>previousRooms\<close> is looked up by user id, not by connection. Here the
  same user is on \<open>a\<close> and \<open>a2\<close>; \<open>a\<close> joins \<open>r1\<close>, \<open>a2\<close> joins \<open>r2\<close>, and when \<open>a\<close> then
  joins \<open>r3\<close> it leaves \<open>r2\<close>, where it never was, and stays in \<open>r1\<close>.
\<close>

theorem joinGroup_membership_counterexample:
  "joined ''a'' two_conns = [''r1'', ''r3'']
 \<and> who (run two_conns init) ''a'' = Some ''u1''
 \<and> userRooms (run two_conns init) ''u1'' = Some [''r3'']
 \<and> in_room (run two_conns init) ''r3'' ''a''
 \<and> in_room (run two_conns init) ''r1'' ''a''"
  by (simp add: two_conns_def relogin_def init_def userA_def handler_defs who_def Let_def)

text \<open>
  C4, amended. Take a connected socket \<open>c\<close> authenticated as \<open>u\<close> and any run that leaves
  its join-room bookkeeping undisturbed: \<open>c\<close> is not authenticated again, not closed and
  joins no therapy session, and no other socket carrying \<open>u\<close> at that moment calls
  \<open>joinGroup\<close> or is closed. Once \<open>c\<close> has joined at least one room in the run, the
  \<open>userRooms\<close> entry of \<open>u\<close> holds exactly the room \<open>c\<close> joined last, \<open>c\<close> is in that room,
  and \<open>c\<close> is in no other room it joined during the run.
\<close>

theorem joinGroup_single_membership:
  assumes "sockets s c = Some k" and "connected k" and "userId k = Some u" and "u \<noteq> []"
    and "undisturbed c u es s" and "joined c es \<noteq> []"
  shows "userRooms (run es s) u = Some [last (joined c es)]
       \<and> in_room (run es s) (last (joined c es)) c
       \<and> (\<forall>g \<in> set (joined c es). g \<noteq> last (joined c es) \<longrightarrow> \<not> in_room (run es s) g c)"
  using joinGroup_undisturbed_aux [OF assms(4), of s c "[]" es] assms(1-3,5,6)
  by (auto simp add: in_room_def)

theorem joinGroup_single_membership_witness:
  "sockets demo ''a'' = Some sock_a \<and> connected sock_a \<and> userId sock_a = Some ''u1'' \<and> ''u1'' \<noteq> []
 \<and> undisturbed ''a'' ''u1'' busy_room demo
 \<and> joined ''a'' busy_room = [''r1'', ''r2'', ''r1'', ''r3'']
 \<and> userRooms (run busy_room demo) ''u1'' = Some [''r3'']
 \<and> in_room (run busy_room demo) ''r3'' ''a''
 \<and> \<not> in_room (run busy_room demo) ''r1'' ''a''
 \<and> \<not> in_room (run busy_room demo) ''r2'' ''a''"
proof -
  have h: "sockets demo ''a'' = Some sock_a" "connected sock_a" "userId sock_a = Some ''u1''"
    "''u1'' \<noteq> []"
    by (simp_all add: demo_defs)
  have u: "undisturbed ''a'' ''u1'' busy_room demo"
    by (simp add: busy_room_def demo_defs handler_defs who_def on_sendMessage_def on_typing_def
        generateMessageId_example trim_def is_space_def Let_def)
  have j: "joined ''a'' busy_room = [''r1'', ''r2'', ''r1'', ''r3'']"
    by (simp add: busy_room_def)
  from joinGroup_single_membership [OF h u] h u j
  show ?thesis by (simp del: run.simps step.simps)
qed

end
